theory Spec2Isabelle
  imports Main "HOL-Library.Sublist" "HOL-Library.Multiset"
begin

section \<open>Data model\<close>

text \<open>
  A JavaScript string is a sequence of UTF-16 code units. The titles and the search term
  are lowered and searched, so they are such sequences; the ids, icons and urls are only
  copied and compared, and are HOL strings. \<open>js\<close> gives the JavaScript string of an ASCII
  literal.
\<close>

type_synonym js_string = "nat list"

definition js :: "string \<Rightarrow> js_string" where
  "js s = map of_char s"

text \<open>
  The interface \<open>ITool\<close> of the component: four string fields. The field \<open>id\<close> is
  named \<open>tool_id\<close> here, since \<open>id\<close> is the identity function of HOL.
\<close>

record ITool =
  tool_id :: string
  title :: js_string
  icon :: string
  url :: string

text \<open>
  An element of the JavaScript array \<open>selectedTools\<close>. The declared element type is
  \<open>ITool\<close>, but \<open>moveItem\<close> and \<open>onDrop\<close> can store \<open>undefined\<close> in the array (the
  destructuring \<open>[movedItem] = []\<close>), so an element is \<open>Some tool\<close> or \<open>None\<close>, the
  value \<open>undefined\<close>.
\<close>

type_synonym slot = "ITool option"

text \<open>Reading \<open>.id\<close> of \<open>undefined\<close> throws a TypeError; nothing else in the handlers throws.\<close>

datatype error = TypeError

text \<open>
  The state of the component: the three \<open>useState\<close> cells, and the log of the save calls
  with their payloads, oldest first. A save call is a call of \<open>saveToolsToFile\<close> or the
  PUT of the defaults in \<open>handleToolsFile\<close> (the variant with the file-backed store and
  drag and drop, which the handlers below follow), or a run of \<open>saveSelectedTools\<close> (the
  variant that saves in an effect). The component keeps no record of whether a save has
  settled: a save in flight is an entry of the log like any other.
\<close>

record engine =
  selectedTools :: "slot list"
  availableTools :: "ITool list"
  searchTerm :: js_string
  saves :: "slot list list"

text \<open>The state at mount: \<open>useState([])\<close>, \<open>useState([])\<close>, \<open>useState('')\<close>, nothing saved.\<close>

definition initial :: engine where
  "initial = \<lparr>selectedTools = [], availableTools = [], searchTerm = [], saves = []\<rparr>"

definition setSelectedTools :: "slot list \<Rightarrow> engine \<Rightarrow> engine" where
  "setSelectedTools tools st = st\<lparr>selectedTools := tools\<rparr>"

definition saveToolsToFile :: "slot list \<Rightarrow> engine \<Rightarrow> engine" where
  "saveToolsToFile tools st = st\<lparr>saves := saves st @ [tools]\<rparr>"

section \<open>Array.prototype.splice\<close>

text \<open>
  \<open>splice_js\<close> is \<open>splice(start, deleteCount, ...items)\<close> on integer arguments: a negative \<open>start\<close>
  counts from the end and is clamped to 0, a \<open>start\<close> beyond the length is clamped to the
  length, and \<open>deleteCount\<close> is clamped to what is left. It returns the removed elements
  and leaves the array with \<open>items\<close> in their place: the pair (removed, array after).
\<close>

definition relative_start :: "nat \<Rightarrow> int \<Rightarrow> nat" where
  "relative_start len start =
     (if start < 0 then nat (max (int len + start) 0) else min (nat start) len)"

definition splice_js :: "'a list \<Rightarrow> int \<Rightarrow> int \<Rightarrow> 'a list \<Rightarrow> 'a list \<times> 'a list" where
  "splice_js xs start deleteCount items =
     (let s = relative_start (length xs) start;
          d = nat (min (max deleteCount 0) (int (length xs) - int s))
      in (take d (drop s xs), take s xs @ items @ drop (s + d) xs))"

text \<open>The array destructuring \<open>const [x] = removed\<close>: the first element, or \<open>undefined\<close>.\<close>

definition first_of :: "slot list \<Rightarrow> slot" where
  "first_of removed = (case removed of [] \<Rightarrow> None | x # _ \<Rightarrow> x)"

section \<open>The handlers\<close>

text \<open>
  The handlers close over the state of the current render; here they take it as an
  argument and return the state after \<open>setSelectedTools\<close> and \<open>saveToolsToFile\<close>. The
  other variants of the component compute the same lists in \<open>moveItem\<close>, \<open>addTool\<close> and
  \<open>removeTool\<close> and differ in how the save is made.
\<close>

definition moveItem :: "engine \<Rightarrow> int \<Rightarrow> int \<Rightarrow> error + engine" where
  "moveItem st fromIndex toIndex =
     (if toIndex < 0 \<or> toIndex \<ge> int (length (selectedTools st)) then Inr st
      else
        let (removed, newTools1) = splice_js (selectedTools st) fromIndex 1 [];
            movedItem = first_of removed;
            (_, newTools) = splice_js newTools1 toIndex 0 [movedItem]
        in Inr (saveToolsToFile newTools (setSelectedTools newTools st)))"

text \<open>
  \<open>selectedTools.find(t => t.id === id)\<close>: the first element with that id, or \<open>undefined\<close>;
  the callback throws on an element that is \<open>undefined\<close>.
\<close>

fun find_by_id :: "slot list \<Rightarrow> string \<Rightarrow> error + slot" where
  "find_by_id [] i = Inr None"
| "find_by_id (None # xs) i = Inl TypeError"
| "find_by_id (Some t # xs) i = (if tool_id t = i then Inr (Some t) else find_by_id xs i)"

definition addTool :: "engine \<Rightarrow> ITool \<Rightarrow> error + engine" where
  "addTool st tool =
     (case find_by_id (selectedTools st) (tool_id tool) of
        Inl e \<Rightarrow> Inl e
      | Inr (Some t) \<Rightarrow> Inr st
      | Inr None \<Rightarrow>
          let newTools = selectedTools st @ [Some tool]
          in Inr (saveToolsToFile newTools (setSelectedTools newTools st)))"

text \<open>\<open>selectedTools.filter(tool => tool.id !== toolId)\<close>, the callback throwing as above.\<close>

fun filter_not_id :: "slot list \<Rightarrow> string \<Rightarrow> error + slot list" where
  "filter_not_id [] i = Inr []"
| "filter_not_id (None # xs) i = Inl TypeError"
| "filter_not_id (Some t # xs) i =
     (case filter_not_id xs i of
        Inl e \<Rightarrow> Inl e
      | Inr ys \<Rightarrow> Inr (if tool_id t \<noteq> i then Some t # ys else ys))"

definition removeTool :: "engine \<Rightarrow> string \<Rightarrow> error + engine" where
  "removeTool st toolId =
     (case filter_not_id (selectedTools st) toolId of
        Inl e \<Rightarrow> Inl e
      | Inr newTools \<Rightarrow> Inr (saveToolsToFile newTools (setSelectedTools newTools st)))"

text \<open>
  \<open>selectedTools.findIndex(tool => tool.id === id)\<close>: the index of the first element with
  that id, or \<open>-1\<close>; \<open>k\<close> is the index of the head of the list.
\<close>

fun findIndex_from :: "int \<Rightarrow> slot list \<Rightarrow> string \<Rightarrow> error + int" where
  "findIndex_from k [] i = Inr (- 1)"
| "findIndex_from k (None # xs) i = Inl TypeError"
| "findIndex_from k (Some t # xs) i =
     (if tool_id t = i then Inr k else findIndex_from (k + 1) xs i)"

definition findIndex :: "slot list \<Rightarrow> string \<Rightarrow> error + int" where
  "findIndex xs i = findIndex_from 0 xs i"

text \<open>
  \<open>dragDropEvents.onDrop\<close>, for an item and an event that are present: \<open>draggedId\<close> is
  \<open>item.id\<close> and \<open>dropIndex\<close> the integer read from the attribute \<open>data-index\<close> of the drop
  target. It sets the state and does not save.
\<close>

definition onDrop :: "engine \<Rightarrow> string \<Rightarrow> int \<Rightarrow> error + engine" where
  "onDrop st draggedId dropIndex =
     (case findIndex (selectedTools st) draggedId of
        Inl e \<Rightarrow> Inl e
      | Inr draggedItemIndex \<Rightarrow>
          if draggedItemIndex \<noteq> dropIndex then
            let (removed, newTools1) = splice_js (selectedTools st) draggedItemIndex 1 [];
                draggedItem = first_of removed;
                (_, newTools) = splice_js newTools1 dropIndex 0 [draggedItem]
            in Inr (setSelectedTools newTools st)
          else Inr st)"

text \<open>
  An exception thrown in an event handler ends the handler; the state stays as it was.
  \<open>after st r\<close> is the state after a handler that started in \<open>st\<close> ended with \<open>r\<close>.
\<close>

definition after :: "engine \<Rightarrow> error + engine \<Rightarrow> engine" where
  "after st r = (case r of Inl e \<Rightarrow> st | Inr st' \<Rightarrow> st')"

definition selection_of :: "error + engine \<Rightarrow> error + slot list" where
  "selection_of r = (case r of Inl e \<Rightarrow> Inl e | Inr st \<Rightarrow> Inr (selectedTools st))"

datatype operation = Add ITool | Remove string | Move int int

definition apply_op :: "engine \<Rightarrow> operation \<Rightarrow> engine" where
  "apply_op st op =
     after st (case op of
        Add tool \<Rightarrow> addTool st tool
      | Remove toolId \<Rightarrow> removeTool st toolId
      | Move fromIndex toIndex \<Rightarrow> moveItem st fromIndex toIndex)"

definition run :: "engine \<Rightarrow> operation list \<Rightarrow> engine" where
  "run st ops = foldl apply_op st ops"

section \<open>The filtered view\<close>

text \<open>\<open>includes_js s q\<close> is \<open>s.includes(q)\<close>: \<open>q\<close> occurs in \<open>s\<close> at some position.\<close>

fun includes_js :: "js_string \<Rightarrow> js_string \<Rightarrow> bool" where
  "includes_js [] q = (q = [])"
| "includes_js (c # s) q = (prefix q (c # s) \<or> includes_js s q)"

text \<open>
  \<open>String.prototype.toLowerCase\<close> is a built-in of the language, defined by the case
  mappings of Unicode, and no part of the source: \<open>filteredAvailableTools\<close> takes it as
  its first argument.
\<close>

definition filteredAvailableTools :: "(js_string \<Rightarrow> js_string) \<Rightarrow> engine \<Rightarrow> ITool list" where
  "filteredAvailableTools toLowerCase st =
     filter (\<lambda>tool. includes_js (toLowerCase (title tool)) (toLowerCase (searchTerm st)))
       (availableTools st)"

section \<open>Initialisation from the store\<close>

text \<open>
  What the environment answers: whether \<open>getClient\<close> resolves, what reading the file
  gives (the tools, a missing file, or any other failure of the GET or of \<open>json()\<close>), and
  whether the PUT of the defaults is acknowledged.
\<close>

datatype load_result = Found "slot list" | NotFound | LoadError

datatype save_result = Ack | Failure

definition placeholder :: "string \<Rightarrow> string" where
  "placeholder absoluteUrl = absoluteUrl @ ''/_layouts/15/images/placeholder.png''"

definition defaultTools :: "string \<Rightarrow> slot list" where
  "defaultTools absoluteUrl =
     [Some \<lparr>tool_id = ''1'', title = js ''Workday'',
             icon = placeholder absoluteUrl, url = ''#''\<rparr>,
      Some \<lparr>tool_id = ''2'', title = js ''Time Mgr'',
             icon = placeholder absoluteUrl, url = ''#''\<rparr>,
      Some \<lparr>tool_id = ''3'', title = js ''Fidelity'',
             icon = placeholder absoluteUrl, url = ''#''\<rparr>]"

text \<open>
  \<open>handleToolsFile\<close>: a failure of \<open>getClient\<close>, or of the PUT, ends in the outer \<open>catch\<close>,
  which only logs; any failure of the read ends in the inner \<open>catch\<close>, which writes the
  defaults and, once the PUT has returned, sets them.
\<close>

definition handleToolsFile ::
    "string \<Rightarrow> bool \<Rightarrow> load_result \<Rightarrow> save_result \<Rightarrow> engine \<Rightarrow> engine" where
  "handleToolsFile absoluteUrl clientOk loaded put st =
     (if \<not> clientOk then st
      else case loaded of
        Found tools \<Rightarrow> setSelectedTools tools st
      | _ \<Rightarrow>
          let st1 = st\<lparr>saves := saves st @ [defaultTools absoluteUrl]\<rparr>
          in case put of
               Ack \<Rightarrow> setSelectedTools (defaultTools absoluteUrl) st1
             | Failure \<Rightarrow> st1)"

text \<open>
  The variant that saves in an effect has no default list. Its effect with the dependency
  \<open>[selectedTools]\<close> runs \<open>saveSelectedTools\<close>, which writes the current selection, after
  every render in which \<open>selectedTools\<close> is a new array, and every call of
  \<open>setSelectedTools\<close> passes a new array: \<open>setSelectedTools_effect\<close> is such a call
  followed by the render it causes and that effect.
\<close>

definition saveSelectedTools :: "engine \<Rightarrow> engine" where
  "saveSelectedTools st = st\<lparr>saves := saves st @ [selectedTools st]\<rparr>"

definition setSelectedTools_effect :: "slot list \<Rightarrow> engine \<Rightarrow> engine" where
  "setSelectedTools_effect tools st = saveSelectedTools (setSelectedTools tools st)"

text \<open>
  \<open>fetchSelectedTools\<close> of that variant: the parsed file is set; an error with the status
  code 404 sets the empty array; any other error is logged.
\<close>

definition fetchSelectedTools :: "bool \<Rightarrow> load_result \<Rightarrow> engine \<Rightarrow> engine" where
  "fetchSelectedTools clientOk loaded st =
     (if \<not> clientOk then st
      else case loaded of
        Found data \<Rightarrow> setSelectedTools_effect data st
      | NotFound \<Rightarrow> setSelectedTools_effect [] st
      | LoadError \<Rightarrow> st)"

section \<open>Specification-side definitions\<close>

text \<open>
  The move of the specification, in its words: remove the element at \<open>i\<close>, reinsert it at
  \<open>j\<close>, the elements in between shifting by one.
\<close>

definition remove_at :: "nat \<Rightarrow> 'a list \<Rightarrow> 'a list" where
  "remove_at i xs = take i xs @ drop (Suc i) xs"

definition insert_at :: "nat \<Rightarrow> 'a \<Rightarrow> 'a list \<Rightarrow> 'a list" where
  "insert_at j x xs = take j xs @ x # drop j xs"

definition spec_move :: "nat \<Rightarrow> nat \<Rightarrow> 'a list \<Rightarrow> 'a list" where
  "spec_move i j xs = insert_at j (xs ! i) (remove_at i xs)"

text \<open>
  The tools held by an array, in order, skipping the elements that are \<open>undefined\<close>; their
  ids; and the invariant of the selection: no id occurs twice.
\<close>

fun tools_of :: "slot list \<Rightarrow> ITool list" where
  "tools_of [] = []"
| "tools_of (None # xs) = tools_of xs"
| "tools_of (Some t # xs) = t # tools_of xs"

definition ids :: "slot list \<Rightarrow> string list" where
  "ids sel = map tool_id (tools_of sel)"

definition unique_ids :: "slot list \<Rightarrow> bool" where
  "unique_ids sel = distinct (ids sel)"

text \<open>
  ASCII strings, and equality up to case on them: two code units are the same letter
  when they are equal, or one is a capital letter from A (65) to Z (90) and the other
  the small letter, 32 above. A title contains a filter string up to case when some
  substring of the title equals the filter string, letter by letter, up to case.
\<close>

definition is_ascii :: "js_string \<Rightarrow> bool" where
  "is_ascii s = list_all (\<lambda>c. c < 128) s"

definition same_letter :: "nat \<Rightarrow> nat \<Rightarrow> bool" where
  "same_letter c d =
     (c = d \<or> (65 \<le> c \<and> c \<le> 90 \<and> d = c + 32) \<or> (65 \<le> d \<and> d \<le> 90 \<and> c = d + 32))"

definition contains_ignoring_case :: "js_string \<Rightarrow> js_string \<Rightarrow> bool" where
  "contains_ignoring_case s q = (\<exists>w. sublist w s \<and> list_all2 same_letter w q)"

text \<open>
  What \<open>toLowerCase\<close> does to an ASCII string: every capital letter becomes the small
  letter, every other code unit stays.
\<close>

definition ascii_lower :: "nat \<Rightarrow> nat" where
  "ascii_lower c = (if 65 \<le> c \<and> c \<le> 90 then c + 32 else c)"

text \<open>
  What \<open>toLowerCase\<close> does to a string of Greek capital letters (code units 0x391 to
  0x3A9): every letter becomes the small letter, 32 above, but capital sigma (0x3A3)
  becomes final sigma (0x3C2) when a letter comes before it and none after it (the
  condition of the final sigma in the special casing of Unicode). \<open>preceded\<close> tells whether a
  letter comes before.
\<close>

fun lower_greek_capitals :: "bool \<Rightarrow> js_string \<Rightarrow> js_string" where
  "lower_greek_capitals preceded [] = []"
| "lower_greek_capitals preceded (c # cs) =
     (if c = 0x3A3 \<and> preceded \<and> cs = [] then 0x3C2
      else if 0x391 \<le> c \<and> c \<le> 0x3A9 then c + 32
      else c) # lower_greek_capitals True cs"

definition toLowerCase_greek :: "js_string \<Rightarrow> js_string" where
  "toLowerCase_greek s = lower_greek_capitals False s"

text \<open>
  An operation is a mutation in a state when its handler gets past its guard and reaches
  \<open>setSelectedTools\<close>: adding a tool whose id is not selected, removing, and moving to an
  index in range.
\<close>

definition mutation :: "engine \<Rightarrow> operation \<Rightarrow> bool" where
  "mutation st op =
     (case op of
        Add tool \<Rightarrow> find_by_id (selectedTools st) (tool_id tool) = Inr None
      | Remove toolId \<Rightarrow> None \<notin> set (selectedTools st)
      | Move fromIndex toIndex \<Rightarrow> 0 \<le> toIndex \<and> toIndex < int (length (selectedTools st)))"

section \<open>Example data\<close>

definition tool_A :: ITool where
  "tool_A = \<lparr>tool_id = ''A'', title = js ''Alpha'', icon = ''a.png'', url = ''#''\<rparr>"

definition tool_B :: ITool where
  "tool_B = \<lparr>tool_id = ''B'', title = js ''Beta'', icon = ''b.png'', url = ''#''\<rparr>"

definition tool_C :: ITool where
  "tool_C = \<lparr>tool_id = ''C'', title = js ''Gamma'', icon = ''c.png'', url = ''#''\<rparr>"

definition tool_D :: ITool where
  "tool_D = \<lparr>tool_id = ''D'', title = js ''Delta'', icon = ''d.png'', url = ''#''\<rparr>"

definition state_ABC :: engine where
  "state_ABC = initial\<lparr>selectedTools := [Some tool_A, Some tool_B, Some tool_C]\<rparr>"

text \<open>A catalog of three tools, the first of them selected, and a search term.\<close>

definition tool_W :: ITool where
  "tool_W = \<lparr>tool_id = ''1'', title = js ''Workday'', icon = ''w.png'', url = ''#''\<rparr>"

definition tool_T :: ITool where
  "tool_T = \<lparr>tool_id = ''2'', title = js ''Time Mgr'', icon = ''t.png'', url = ''#''\<rparr>"

definition tool_N :: ITool where
  "tool_N = \<lparr>tool_id = ''7'', title = js ''NETWORK Drive'', icon = ''n.png'', url = ''#''\<rparr>"

definition state_catalog :: engine where
  "state_catalog =
     initial\<lparr>selectedTools := [Some tool_W], availableTools := [tool_W, tool_T, tool_N],
       searchTerm := js ''wOR''\<rparr>"

text \<open>A catalog of one tool, titled Alpha Sigma in Greek capitals.\<close>

definition tool_greek :: ITool where
  "tool_greek = \<lparr>tool_id = ''9'', title = [0x391, 0x3A3], icon = ''g.png'', url = ''#''\<rparr>"

text \<open>The same state with one save, of the selection as it is, issued and not yet settled.\<close>

definition state_saving :: engine where
  "state_saving = state_ABC\<lparr>saves := [selectedTools state_ABC]\<rparr>"

lemmas example_defs = tool_A_def tool_B_def tool_C_def tool_D_def state_ABC_def initial_def

lemmas handler_defs = moveItem_def addTool_def removeTool_def onDrop_def findIndex_def
  splice_js_def relative_start_def first_of_def Let_def setSelectedTools_def saveToolsToFile_def

section \<open>Lemmas on splice\<close>

lemma splice_js_delete_one:
  assumes "i < length xs"
  shows "splice_js xs (int i) 1 [] = ([xs ! i], remove_at i xs)"
proof -
  have s: "relative_start (length xs) (int i) = i"
    using assms by (simp add: relative_start_def)
  have d: "nat (min (max 1 0) (int (length xs) - int i)) = 1"
    using assms by simp
  have "take 1 (drop i xs) = [xs ! i]"
    using assms by (simp add: take_Suc_conv_app_nth Cons_nth_drop_Suc [symmetric])
  then show ?thesis
    unfolding splice_js_def Let_def s d by (simp add: remove_at_def)
qed

lemma splice_js_insert_one:
  assumes "j \<le> length xs"
  shows "splice_js xs (int j) 0 [x] = ([], insert_at j x xs)"
  using assms by (simp add: splice_js_def relative_start_def insert_at_def)

section \<open>Uniqueness of ids\<close>

lemma tools_of_append: "tools_of (xs @ ys) = tools_of xs @ tools_of ys"
  by (induction xs rule: tools_of.induct) simp_all

lemma ids_append: "ids (xs @ ys) = ids xs @ ids ys"
  by (simp add: ids_def tools_of_append)

lemma mset_ids: "mset xs = mset ys \<Longrightarrow> mset (ids xs) = mset (ids ys)"
proof -
  have "mset (ids zs) = image_mset (\<lambda>s. tool_id (the s)) (filter_mset (\<lambda>s. s \<noteq> None) (mset zs))" for zs
    by (induction zs rule: tools_of.induct) (simp_all add: ids_def)
  then show "mset xs = mset ys \<Longrightarrow> mset (ids xs) = mset (ids ys)" by simp
qed

lemma splice_js_parts:
  assumes "splice_js xs start deleteCount [] = (removed, rest)"
  shows "mset removed + mset rest = mset xs"
proof -
  define s where "s = relative_start (length xs) start"
  define d where "d = nat (min (max deleteCount 0) (int (length xs) - int s))"
  have r: "removed = take d (drop s xs)" and t: "rest = take s xs @ drop (s + d) xs"
    using assms by (simp_all add: splice_js_def Let_def s_def d_def)
  have "mset xs = mset (take s xs @ drop s xs)"
    by (simp only: append_take_drop_id)
  also have "drop s xs = take d (drop s xs) @ drop d (drop s xs)"
    by (simp only: append_take_drop_id)
  also have "drop d (drop s xs) = drop (s + d) xs"
    by (simp only: drop_drop add.commute [of d s])
  finally have "mset xs = mset (take s xs @ removed @ drop (s + d) xs)"
    by (simp only: r)
  then show ?thesis
    by (simp only: t mset_append ac_simps)
qed

lemma splice_js_one_removed:
  assumes "splice_js xs start 1 [] = (removed, rest)"
  shows "removed = [] \<or> (\<exists>x. removed = [x])"
proof -
  have "length removed \<le> 1"
    using assms by (auto simp: splice_js_def Let_def)
  then show ?thesis
    by (cases removed) simp_all
qed

lemma splice_js_inserted:
  assumes "splice_js xs start 0 [x] = (removed, new)"
  shows "mset new = add_mset x (mset xs)"
proof -
  have "new = take (relative_start (length xs) start) xs @ [x] @ drop (relative_start (length xs) start) xs"
    using assms by (simp add: splice_js_def Let_def)
  then have "mset new = add_mset x (mset (take (relative_start (length xs) start) xs @ drop (relative_start (length xs) start) xs))"
    by (simp only: mset_append mset.simps) simp
  then show ?thesis by simp
qed

lemma reinsert_ids:
  assumes "splice_js xs start 1 [] = (removed, rest)"
    and "splice_js rest target 0 [first_of removed] = (removed', new)"
  shows "mset (ids new) = mset (ids xs)"
proof -
  have new: "mset new = add_mset (first_of removed) (mset rest)"
    using assms(2) by (rule splice_js_inserted)
  have parts: "mset removed + mset rest = mset xs"
    using assms(1) by (rule splice_js_parts)
  from splice_js_one_removed [OF assms(1)] show ?thesis
  proof
    assume e: "removed = []"
    then have "mset new = mset (None # xs)"
      using new parts by (simp add: first_of_def)
    then have "mset (ids new) = mset (ids (None # xs))" by (rule mset_ids)
    then show ?thesis by (simp add: ids_def)
  next
    assume "\<exists>x. removed = [x]"
    then obtain x where x: "removed = [x]" ..
    then have "mset new = mset xs" using new parts by (simp add: first_of_def)
    then show ?thesis by (rule mset_ids)
  qed
qed

lemma unique_ids_mset: "mset (ids xs) = mset (ids ys) \<Longrightarrow> unique_ids xs = unique_ids ys"
  unfolding unique_ids_def by (rule mset_eq_imp_distinct_iff)

lemma moveItem_unique:
  assumes "moveItem st f t = Inr st'"
  shows "unique_ids (selectedTools st') = unique_ids (selectedTools st)"
proof (cases "t < 0 \<or> t \<ge> int (length (selectedTools st))")
  case True
  then show ?thesis using assms by (simp add: moveItem_def)
next
  case False
  obtain removed rest where a: "splice_js (selectedTools st) f 1 [] = (removed, rest)"
    by (cases "splice_js (selectedTools st) f 1 []")
  obtain removed' new where b: "splice_js rest t 0 [first_of removed] = (removed', new)"
    by (cases "splice_js rest t 0 [first_of removed]")
  have sel: "selectedTools st' = new"
    using assms False a b by (auto simp: moveItem_def setSelectedTools_def saveToolsToFile_def)
  have "mset (ids new) = mset (ids (selectedTools st))"
    by (rule reinsert_ids [OF a b])
  then have "unique_ids new = unique_ids (selectedTools st)"
    by (rule unique_ids_mset)
  then show ?thesis
    by (simp only: sel)
qed

lemma find_by_id_absent: "find_by_id xs i = Inr None \<Longrightarrow> i \<notin> set (ids xs)"
  by (induction xs i rule: find_by_id.induct) (auto simp: ids_def split: if_splits)

lemma addTool_unique:
  assumes "addTool st tool = Inr st'" and "unique_ids (selectedTools st)"
  shows "unique_ids (selectedTools st')"
proof (cases "find_by_id (selectedTools st) (tool_id tool)")
  case (Inl e)
  then show ?thesis using assms by (simp add: addTool_def)
next
  case (Inr found)
  show ?thesis
  proof (cases found)
    case None
    then have "selectedTools st' = selectedTools st @ [Some tool]"
      using assms(1) Inr by (auto simp: addTool_def Let_def setSelectedTools_def saveToolsToFile_def)
    moreover have "tool_id tool \<notin> set (ids (selectedTools st))"
      using Inr None by (simp add: find_by_id_absent)
    ultimately show ?thesis
      using assms(2) by (simp add: unique_ids_def ids_append) (simp add: ids_def)
  next
    case (Some t)
    then show ?thesis using assms Inr by (simp add: addTool_def)
  qed
qed

lemma filter_not_id_ids: "filter_not_id xs i = Inr ys \<Longrightarrow> ids ys = filter (\<lambda>j. j \<noteq> i) (ids xs)"
  by (induction xs i arbitrary: ys rule: filter_not_id.induct)
     (auto simp: ids_def split: sum.splits if_splits)

lemma removeTool_unique:
  assumes "removeTool st toolId = Inr st'" and "unique_ids (selectedTools st)"
  shows "unique_ids (selectedTools st')"
proof -
  obtain ys where ys: "filter_not_id (selectedTools st) toolId = Inr ys" and "selectedTools st' = ys"
    using assms(1)
    by (auto simp: removeTool_def setSelectedTools_def saveToolsToFile_def split: sum.splits)
  then show ?thesis
    using assms(2) by (simp add: unique_ids_def filter_not_id_ids)
qed

lemma apply_op_unique:
  assumes "unique_ids (selectedTools st)"
  shows "unique_ids (selectedTools (apply_op st op))"
proof (cases op)
  case (Add tool)
  then show ?thesis
    using assms addTool_unique [of st tool]
    by (cases "addTool st tool") (simp_all add: apply_op_def after_def)
next
  case (Remove toolId)
  then show ?thesis
    using assms removeTool_unique [of st toolId]
    by (cases "removeTool st toolId") (simp_all add: apply_op_def after_def)
next
  case (Move f t)
  then show ?thesis
    using assms moveItem_unique [of st f t]
    by (cases "moveItem st f t") (simp_all add: apply_op_def after_def)
qed

text \<open>
  Claim C1 (uniqueness). Starting from a selection in which no id occurs twice, after any
  sequence of add, remove and move operations, with any tools, ids and integer indices,
  no id occurs twice in the selection.
\<close>

theorem uniqueness:
  assumes "unique_ids (selectedTools st)"
  shows "unique_ids (selectedTools (run st ops))"
  using assms unfolding run_def
  by (induction ops arbitrary: st) (simp_all add: apply_op_unique)

theorem uniqueness_witness:
  "unique_ids (selectedTools state_ABC) \<and>
   unique_ids (selectedTools (run state_ABC [Add tool_A, Move 0 2, Remove ''B'', Add tool_D]))"
proof -
  have h: "unique_ids (selectedTools state_ABC)"
    by (simp add: example_defs unique_ids_def ids_def)
  from uniqueness [OF h] h show ?thesis by simp
qed

section \<open>Move\<close>

text \<open>
  What \<open>spec_move\<close> does, position by position: the moved element lands at \<open>j\<close>, the
  elements between the two indices shift by one towards \<open>i\<close>, the others stay.
\<close>

lemma spec_move_nth:
  assumes "i < length xs" and "j < length xs"
  shows "length (spec_move i j xs) = length xs"
    and "spec_move i j xs ! j = xs ! i"
    and "k < length xs \<Longrightarrow> k \<noteq> j \<Longrightarrow> spec_move i j xs ! k =
       (if k < min i j \<or> k > max i j then xs ! k else if i < j then xs ! Suc k else xs ! (k - 1))"
  using assms
  by (auto simp: spec_move_def insert_at_def remove_at_def nth_append min_def max_def nth_Cons')

lemma spec_move_same: "i < length xs \<Longrightarrow> spec_move i i xs = xs"
  by (simp add: spec_move_def insert_at_def remove_at_def Cons_nth_drop_Suc)

lemma moveItem_in_range:
  assumes "i < length (selectedTools st)" and "j < length (selectedTools st)"
  shows "moveItem st (int i) (int j) =
           Inr (st\<lparr>selectedTools := spec_move i j (selectedTools st),
                   saves := saves st @ [spec_move i j (selectedTools st)]\<rparr>)"
proof -
  let ?xs = "selectedTools st"
  have len: "length (remove_at i ?xs) = length ?xs - 1"
    using assms(1) by (simp add: remove_at_def)
  have j: "j \<le> length (remove_at i ?xs)"
    using assms(2) len by simp
  show ?thesis
    using assms(2)
    by (simp add: moveItem_def splice_js_delete_one [OF assms(1)] splice_js_insert_one [OF j]
        first_of_def spec_move_def setSelectedTools_def saveToolsToFile_def)
qed


lemma moveItem_same_index:
  assumes "0 \<le> t" and "t < int (length (selectedTools st))"
  shows "selection_of (moveItem st t t) = Inr (selectedTools st)"
proof -
  have t: "nat t < length (selectedTools st)"
    using assms by simp
  have eq: "int (nat t) = t"
    using assms(1) by simp
  have "moveItem st (int (nat t)) (int (nat t)) =
      Inr (st\<lparr>selectedTools := spec_move (nat t) (nat t) (selectedTools st),
             saves := saves st @ [spec_move (nat t) (nat t) (selectedTools st)]\<rparr>)"
    by (rule moveItem_in_range [OF t t])
  then have "moveItem st t t =
      Inr (st\<lparr>selectedTools := selectedTools st, saves := saves st @ [selectedTools st]\<rparr>)"
    by (simp only: eq spec_move_same [OF t])
  then show ?thesis
    by (simp add: selection_of_def)
qed

text \<open>
  Claim C2 (move correctness). For indices \<open>fromIndex\<close> and \<open>toIndex\<close> that are both in
  range, \<open>moveItem\<close> removes the element at \<open>fromIndex\<close> and reinserts it at \<open>toIndex\<close>, the
  elements in between shifting (no swap), and saves the new list; in particular moving
  index 0 to index 2 in \<open>[a, b, c, d]\<close> gives \<open>[b, c, a, d]\<close>.
\<close>

theorem move_correctness:
  assumes "0 \<le> fromIndex" and "fromIndex < int (length (selectedTools st))"
    and "0 \<le> toIndex" and "toIndex < int (length (selectedTools st))"
  shows "moveItem st fromIndex toIndex =
           Inr (st\<lparr>selectedTools := spec_move (nat fromIndex) (nat toIndex) (selectedTools st),
                   saves := saves st @ [spec_move (nat fromIndex) (nat toIndex) (selectedTools st)]\<rparr>)
         \<and> selection_of (moveItem (st\<lparr>selectedTools := [a, b, c, d]\<rparr>) 0 2) = Inr [b, c, a, d]"
proof -
  have i: "nat fromIndex < length (selectedTools st)"
    and j: "nat toIndex < length (selectedTools st)"
    using assms by simp_all
  have "moveItem st (int (nat fromIndex)) (int (nat toIndex)) =
           Inr (st\<lparr>selectedTools := spec_move (nat fromIndex) (nat toIndex) (selectedTools st),
                   saves := saves st @ [spec_move (nat fromIndex) (nat toIndex) (selectedTools st)]\<rparr>)"
    by (rule moveItem_in_range [OF i j])
  moreover have "selection_of (moveItem (st\<lparr>selectedTools := [a, b, c, d]\<rparr>) (int 0) (int 2))
      = Inr [b, c, a, d]"
    by (subst moveItem_in_range)
      (simp_all add: selection_of_def spec_move_def insert_at_def remove_at_def)
  ultimately show ?thesis
    using assms by simp
qed

theorem move_correctness_witness:
  "(0::int) \<le> 2 \<and> 2 < int (length (selectedTools state_ABC)) \<and>
   (0::int) \<le> 0 \<and> 0 < int (length (selectedTools state_ABC)) \<and>
   selection_of (moveItem state_ABC 2 0) = Inr [Some tool_C, Some tool_A, Some tool_B]"
proof -
  have "moveItem state_ABC 2 0 =
      Inr (state_ABC\<lparr>selectedTools := spec_move (nat 2) (nat 0) (selectedTools state_ABC),
             saves := saves state_ABC @ [spec_move (nat 2) (nat 0) (selectedTools state_ABC)]\<rparr>)"
    using move_correctness [of 2 state_ABC 0] by (simp add: example_defs)
  then show ?thesis
    by (simp add: selection_of_def example_defs spec_move_def insert_at_def remove_at_def)
qed

text \<open>
  Claim C3 (out-of-range move), as the code has it: the guard of \<open>moveItem\<close> is on
  \<open>toIndex\<close> alone. When \<open>toIndex\<close> is out of range (negative, or not below the length),
  \<open>moveItem\<close> leaves the state unchanged, saves nothing and throws nothing, whatever
  \<open>fromIndex\<close> is.
\<close>

theorem move_target_out_of_range:
  assumes "toIndex < 0 \<or> int (length (selectedTools st)) \<le> toIndex"
  shows "moveItem st fromIndex toIndex = Inr st"
  using assms by (simp add: moveItem_def)

theorem move_target_out_of_range_witness:
  "((3::int) < 0 \<or> int (length (selectedTools state_ABC)) \<le> 3) \<and>
   moveItem state_ABC 1 3 = Inr state_ABC \<and> moveItem state_ABC 7 (- 1) = Inr state_ABC"
  using move_target_out_of_range [of 3 state_ABC 1]
    move_target_out_of_range [of "- 1" state_ABC 7]
  by (simp add: example_defs)

text \<open>\<open>moveItem\<close> throws for no indices at all.\<close>

lemma moveItem_never_throws: "\<exists>st'. moveItem st fromIndex toIndex = Inr st'"
  by (simp add: moveItem_def Let_def split: prod.splits)

text \<open>
  An out-of-range \<open>fromIndex\<close> with \<open>toIndex\<close> in range is not a no-op: \<open>splice(-1, 1)\<close>
  removes the last element, which is then put at the front; and \<open>splice(3, 1)\<close> on three
  elements removes nothing, so that \<open>undefined\<close> is inserted.
\<close>

theorem move_source_out_of_range_counterexample:
  "(- 1 :: int) < 0 \<and>
   selection_of (moveItem state_ABC (- 1) 0) = Inr [Some tool_C, Some tool_A, Some tool_B] \<and>
   selection_of (moveItem state_ABC (- 1) 0) \<noteq> Inr (selectedTools state_ABC) \<and>
   int (length (selectedTools state_ABC)) \<le> 3 \<and>
   selection_of (moveItem state_ABC 3 0) = Inr [None, Some tool_A, Some tool_B, Some tool_C]"
  by (simp add: handler_defs selection_of_def example_defs)

section \<open>Reordering by drag and drop\<close>

text \<open>
  Claim C4 (drop and move), as the code has it: for a target index in range, \<open>onDrop\<close>
  leaves the same selection as \<open>moveItem\<close> called with the index that \<open>findIndex\<close> gives
  for the dragged id (\<open>-1\<close> when the id is absent), and throws when \<open>findIndex\<close> throws.
\<close>

theorem drop_equals_move:
  assumes "0 \<le> targetIndex" and "targetIndex < int (length (selectedTools st))"
  shows "selection_of (onDrop st draggedId targetIndex) =
           (case findIndex (selectedTools st) draggedId of
              Inl e \<Rightarrow> Inl e
            | Inr fromIndex \<Rightarrow> selection_of (moveItem st fromIndex targetIndex))"
proof (cases "findIndex (selectedTools st) draggedId")
  case (Inl e)
  then show ?thesis
    by (simp add: onDrop_def selection_of_def)
next
  case (Inr k)
  show ?thesis
  proof (cases "k = targetIndex")
    case True
    then show ?thesis
      using Inr moveItem_same_index [OF assms] by (simp add: onDrop_def selection_of_def)
  next
    case False
    then show ?thesis
      using Inr assms
      by (simp add: onDrop_def moveItem_def selection_of_def Let_def setSelectedTools_def
          saveToolsToFile_def split: prod.splits)
  qed
qed

theorem drop_equals_move_witness:
  "(0::int) \<le> 2 \<and> 2 < int (length (selectedTools state_ABC)) \<and>
   selection_of (onDrop state_ABC ''A'' 2) = selection_of (moveItem state_ABC 0 2) \<and>
   selection_of (onDrop state_ABC ''A'' 2) = Inr [Some tool_B, Some tool_C, Some tool_A]"
proof -
  have f: "findIndex (selectedTools state_ABC) ''A'' = Inr 0"
    by (simp add: findIndex_def example_defs)
  have "selection_of (onDrop state_ABC ''A'' 2) = selection_of (moveItem state_ABC 0 2)"
    using drop_equals_move [of 2 state_ABC "''A''"] by (simp add: f) (simp add: example_defs)
  moreover have "selection_of (moveItem state_ABC 0 2)
      = Inr [Some tool_B, Some tool_C, Some tool_A]"
    by (simp add: handler_defs selection_of_def example_defs)
  ultimately show ?thesis
    by (simp add: example_defs)
qed

text \<open>
  With an id that is not selected, \<open>findIndex\<close> gives \<open>-1\<close> and \<open>onDrop\<close> moves the last
  element; with a target index beyond the end, \<open>onDrop\<close> moves the element to the end,
  where \<open>moveItem\<close> returns at its guard.
\<close>

theorem drop_counterexample:
  "findIndex (selectedTools state_ABC) ''Z'' = Inr (- 1) \<and>
   selection_of (onDrop state_ABC ''Z'' 0) = Inr [Some tool_C, Some tool_A, Some tool_B] \<and>
   selection_of (onDrop state_ABC ''Z'' 0) \<noteq> Inr (selectedTools state_ABC) \<and>
   findIndex (selectedTools state_ABC) ''A'' = Inr 0 \<and>
   selection_of (onDrop state_ABC ''A'' 5) = Inr [Some tool_B, Some tool_C, Some tool_A] \<and>
   selection_of (moveItem state_ABC 0 5) = Inr [Some tool_A, Some tool_B, Some tool_C]"
  by (simp add: handler_defs selection_of_def example_defs)

section \<open>Remove\<close>

lemma filter_not_id_tools:
  "filter_not_id (map Some xs) i = Inr (map Some (filter (\<lambda>t. tool_id t \<noteq> i) xs))"
  by (induction xs) simp_all

text \<open>On an array that holds \<open>undefined\<close> the callback throws, and nothing is removed.\<close>

lemma filter_not_id_undefined: "None \<in> set xs \<Longrightarrow> filter_not_id xs i = Inl TypeError"
  by (induction xs i rule: filter_not_id.induct) auto

text \<open>
  Claim C10 (remove). On a selection of tools (an array without \<open>undefined\<close>),
  \<open>removeTool\<close> with an id keeps exactly the entries whose id differs from it, in their
  order: every entry with that id is deleted and the relative order of the others is
  preserved. The new list is saved.
\<close>

theorem remove_correct:
  assumes "selectedTools st = map Some xs"
  shows "removeTool st x =
           Inr (st\<lparr>selectedTools := map Some (filter (\<lambda>t. tool_id t \<noteq> x) xs),
                   saves := saves st @ [map Some (filter (\<lambda>t. tool_id t \<noteq> x) xs)]\<rparr>)"
  using assms
  by (simp add: removeTool_def filter_not_id_tools setSelectedTools_def saveToolsToFile_def)

theorem remove_correct_witness:
  "selectedTools state_ABC = map Some [tool_A, tool_B, tool_C] \<and>
   removeTool state_ABC ''B'' =
     Inr (state_ABC\<lparr>selectedTools := [Some tool_A, Some tool_C],
                    saves := [[Some tool_A, Some tool_C]]\<rparr>)"
  using remove_correct [of state_ABC "[tool_A, tool_B, tool_C]" "''B''"]
  by (simp add: example_defs)

text \<open>
  Claim C7 (remove of an absent id), as the code has it: when no entry of the selection
  has the id, \<open>removeTool\<close> leaves the selection as it is, and still calls
  \<open>saveToolsToFile\<close> once, with that selection as the payload.
\<close>

theorem remove_absent:
  assumes "selectedTools st = map Some xs" and "x \<notin> set (map tool_id xs)"
  shows "removeTool st x = Inr (st\<lparr>saves := saves st @ [selectedTools st]\<rparr>)"
proof -
  have "filter (\<lambda>t. tool_id t \<noteq> x) xs = xs"
    using assms(2) by (induction xs) auto
  then show ?thesis
    using assms(1)
    by (simp add: removeTool_def filter_not_id_tools setSelectedTools_def saveToolsToFile_def)
qed

theorem remove_absent_witness:
  "selectedTools state_ABC = map Some [tool_A, tool_B, tool_C] \<and>
   ''Z'' \<notin> set (map tool_id [tool_A, tool_B, tool_C]) \<and>
   removeTool state_ABC ''Z'' =
     Inr (state_ABC\<lparr>saves := [[Some tool_A, Some tool_B, Some tool_C]]\<rparr>)"
  using remove_absent [of state_ABC "[tool_A, tool_B, tool_C]" "''Z''"]
  by (simp add: example_defs)

theorem remove_absent_counterexample:
  "''Z'' \<notin> set (ids (selectedTools state_ABC)) \<and>
   saves state_ABC = [] \<and>
   saves (after state_ABC (removeTool state_ABC ''Z'')) = [selectedTools state_ABC] \<and>
   saves (after state_ABC (removeTool state_ABC ''Z'')) \<noteq> saves state_ABC"
  by (simp add: removeTool_def after_def ids_def setSelectedTools_def saveToolsToFile_def
      example_defs)

section \<open>Add\<close>

lemma find_by_id_appended:
  "find_by_id xs (tool_id x) = Inr None \<Longrightarrow>
   find_by_id (xs @ [Some x]) (tool_id x) = Inr (Some x)"
  by (induction xs "tool_id x" rule: find_by_id.induct) (auto split: if_splits)

text \<open>
  Claim C9 (idempotent add). Adding a tool twice in succession leaves the same selection,
  and the same state, as adding it once.
\<close>

theorem add_idempotent:
  "run st [Add x, Add x] = run st [Add x] \<and>
   selectedTools (run st [Add x, Add x]) = selectedTools (run st [Add x])"
proof -
  let ?s = "apply_op st (Add x)"
  have "apply_op ?s (Add x) = ?s"
  proof (cases "find_by_id (selectedTools st) (tool_id x)")
    case (Inl e)
    then show ?thesis
      by (simp add: apply_op_def after_def addTool_def)
  next
    case (Inr found)
    show ?thesis
    proof (cases found)
      case None
      then show ?thesis
        using Inr find_by_id_appended [of "selectedTools st" x]
        by (simp add: apply_op_def after_def addTool_def Let_def setSelectedTools_def
            saveToolsToFile_def)
    next
      case (Some t)
      then show ?thesis
        using Inr by (simp add: apply_op_def after_def addTool_def)
    qed
  qed
  then show ?thesis
    by (simp add: run_def)
qed

section \<open>Filtering the catalog\<close>

lemma includes_js_sublist: "includes_js s q = sublist q s"
  by (induction s) (simp_all add: sublist_Cons_right)

lemma sublist_map_iff:
  "sublist (map f q) (map f s) = (\<exists>w. sublist w s \<and> map f w = map f q)"
proof
  assume "sublist (map f q) (map f s)"
  then obtain w where "sublist w s" and "map f q = map f w"
    using sublist_map_rightE by blast
  then show "\<exists>w. sublist w s \<and> map f w = map f q"
    by auto
next
  assume "\<exists>w. sublist w s \<and> map f w = map f q"
  then obtain w where "sublist w s" and w: "map f w = map f q"
    by blast
  from this(1) have "sublist (map f w) (map f s)"
    by (rule map_mono_sublist)
  then show "sublist (map f q) (map f s)"
    by (simp only: w)
qed

lemma ascii_lower_eq_iff: "(ascii_lower c = ascii_lower d) = same_letter c d"
  by (auto simp: ascii_lower_def same_letter_def)

lemma map_ascii_lower_eq_iff:
  "(map ascii_lower w = map ascii_lower q) = list_all2 same_letter w q"
proof (induction w arbitrary: q)
  case Nil
  then show ?case by simp
next
  case (Cons c w)
  then show ?case
    by (cases q) (simp_all add: ascii_lower_eq_iff)
qed

text \<open>For every lowering function, the view is the catalog filtered by inclusion.\<close>

lemma filteredAvailableTools_sublist:
  "filteredAvailableTools lc st =
     filter (\<lambda>tool. sublist (lc (searchTerm st)) (lc (title tool))) (availableTools st)"
  by (simp add: filteredAvailableTools_def includes_js_sublist)

lemma ascii_contains:
  "sublist (map ascii_lower q) (map ascii_lower s) = contains_ignoring_case s q"
  by (simp add: sublist_map_iff contains_ignoring_case_def map_ascii_lower_eq_iff)

text \<open>
  Claim C8 (filter), as the code has it. For every lowering function the available view
  is the catalog restricted to the tools whose lowered title includes the lowered search
  term, in the order of the catalog; it does not depend on the selection, so selected
  tools stay in it. When the titles and the search term are ASCII strings, on which
  \<open>toLowerCase\<close> lowers the letters A to Z one by one, these are the tools whose title
  contains the search term up to case. In particular the search term \<open>wor\<close> against a
  catalog of a tool titled \<open>Workday\<close> and a tool titled \<open>Time Mgr\<close> gives the first tool
  alone.
\<close>

theorem filter_view:
  assumes "\<forall>s. is_ascii s \<longrightarrow> toLowerCase s = map ascii_lower s"
    and "is_ascii (searchTerm st)"
    and "list_all (\<lambda>tool. is_ascii (title tool)) (availableTools st)"
  shows "filteredAvailableTools toLowerCase st =
           filter (\<lambda>tool. sublist (toLowerCase (searchTerm st)) (toLowerCase (title tool)))
             (availableTools st)
         \<and> filteredAvailableTools toLowerCase st =
           filter (\<lambda>tool. contains_ignoring_case (title tool) (searchTerm st))
             (availableTools st)
         \<and> filteredAvailableTools toLowerCase
             (st\<lparr>availableTools := [w\<lparr>title := js ''Workday''\<rparr>, t\<lparr>title := js ''Time Mgr''\<rparr>],
                 searchTerm := js ''wor''\<rparr>) = [w\<lparr>title := js ''Workday''\<rparr>]"
proof -
  have q: "toLowerCase (searchTerm st) = map ascii_lower (searchTerm st)"
    using assms(1,2) by simp
  have t: "toLowerCase (title tool) = map ascii_lower (title tool)"
    if "tool \<in> set (availableTools st)" for tool
    using assms(1,3) that by (simp add: list_all_iff)
  have "filter (\<lambda>tool. sublist (toLowerCase (searchTerm st)) (toLowerCase (title tool)))
          (availableTools st) =
        filter (\<lambda>tool. contains_ignoring_case (title tool) (searchTerm st)) (availableTools st)"
    by (rule filter_cong) (simp_all add: q t ascii_contains)
  then have general: "filteredAvailableTools toLowerCase st =
      filter (\<lambda>tool. contains_ignoring_case (title tool) (searchTerm st)) (availableTools st)"
    by (simp only: filteredAvailableTools_sublist)
  have "is_ascii (js ''Workday'')" and "is_ascii (js ''Time Mgr'')" and "is_ascii (js ''wor'')"
    by (simp_all add: is_ascii_def js_def)
  then have "toLowerCase (js ''Workday'') = map ascii_lower (js ''Workday'')"
    and "toLowerCase (js ''Time Mgr'') = map ascii_lower (js ''Time Mgr'')"
    and "toLowerCase (js ''wor'') = map ascii_lower (js ''wor'')"
    using assms(1) by simp_all
  then have example: "filteredAvailableTools toLowerCase
             (st\<lparr>availableTools := [w\<lparr>title := js ''Workday''\<rparr>, t\<lparr>title := js ''Time Mgr''\<rparr>],
                 searchTerm := js ''wor''\<rparr>) = [w\<lparr>title := js ''Workday''\<rparr>]"
    by (simp add: filteredAvailableTools_def) (simp add: js_def ascii_lower_def)
  show ?thesis
    using general example by (simp add: filteredAvailableTools_sublist)
qed

theorem filter_view_witness:
  "is_ascii (searchTerm state_catalog) \<and>
   list_all (\<lambda>tool. is_ascii (title tool)) (availableTools state_catalog) \<and>
   filteredAvailableTools (map ascii_lower) state_catalog = [tool_W, tool_N] \<and>
   filter (\<lambda>tool. contains_ignoring_case (title tool) (searchTerm state_catalog))
     (availableTools state_catalog) = [tool_W, tool_N]"
proof -
  have a: "is_ascii (searchTerm state_catalog)"
    by (simp add: state_catalog_def is_ascii_def js_def)
  have b: "list_all (\<lambda>tool. is_ascii (title tool)) (availableTools state_catalog)"
    by (simp add: state_catalog_def tool_W_def tool_T_def tool_N_def is_ascii_def js_def)
  have c: "\<forall>s. is_ascii s \<longrightarrow> map ascii_lower s = map ascii_lower s"
    by simp
  have d: "filteredAvailableTools (map ascii_lower) state_catalog = [tool_W, tool_N]"
    by (simp add: filteredAvailableTools_def state_catalog_def tool_W_def tool_T_def tool_N_def
        initial_def js_def ascii_lower_def)
  have e: "filteredAvailableTools (map ascii_lower) state_catalog =
      filter (\<lambda>tool. contains_ignoring_case (title tool) (searchTerm state_catalog))
        (availableTools state_catalog)"
    using filter_view [OF c a b] by (rule conjunct2 [THEN conjunct1])
  show ?thesis
    using a b d e by simp
qed

text \<open>
  Beyond ASCII the two differ. The title Alpha Sigma contains the search term Sigma as
  it stands, but the sigma at the end of the title is lowered to final sigma and the
  search term to small sigma, so the view is empty.
\<close>

theorem filter_counterexample:
  "sublist [0x3A3] (title tool_greek) \<and>
   contains_ignoring_case (title tool_greek) [0x3A3] \<and>
   toLowerCase_greek (title tool_greek) = [0x3B1, 0x3C2] \<and>
   toLowerCase_greek [0x3A3] = [0x3C3] \<and>
   filteredAvailableTools toLowerCase_greek
     (initial\<lparr>availableTools := [tool_greek], searchTerm := [0x3A3]\<rparr>) = []"
proof -
  have s: "sublist [0x3A3] (title tool_greek)"
    by (simp add: tool_greek_def sublist_Cons_right)
  then have "contains_ignoring_case (title tool_greek) [0x3A3]"
    unfolding contains_ignoring_case_def
    by (intro exI [of _ "[0x3A3]"]) (simp add: same_letter_def)
  then show ?thesis
    using s
    by (simp add: filteredAvailableTools_def toLowerCase_greek_def tool_greek_def initial_def)
qed

section \<open>Seeding the defaults\<close>

text \<open>
  Claim C5 (default seeding), as the code has it. In the variant with \<open>handleToolsFile\<close>,
  when the client is there and the file is not found, exactly one save call is issued,
  with the three default tools (Workday, Time Mgr, Fidelity) as the payload, and when
  that call is acknowledged the selection is set to the defaults. The variant with
  \<open>fetchSelectedTools\<close> has no defaults: when the file is not found it sets the empty
  selection, which its effect saves.
\<close>

theorem default_seeding:
  "handleToolsFile absoluteUrl True NotFound Ack st =
     st\<lparr>selectedTools := defaultTools absoluteUrl,
        saves := saves st @ [defaultTools absoluteUrl]\<rparr>
   \<and> saves (handleToolsFile absoluteUrl True NotFound put initial) = [defaultTools absoluteUrl]
   \<and> map (map_option title) (defaultTools absoluteUrl) =
       [Some (js ''Workday''), Some (js ''Time Mgr''), Some (js ''Fidelity'')]
   \<and> fetchSelectedTools True NotFound st = st\<lparr>selectedTools := [], saves := saves st @ [[]]\<rparr>"
  by (cases put)
    (simp_all add: handleToolsFile_def fetchSelectedTools_def setSelectedTools_effect_def
      saveSelectedTools_def setSelectedTools_def defaultTools_def initial_def)

theorem default_seeding_counterexample:
  "selectedTools (fetchSelectedTools True NotFound initial) = [] \<and>
   saves (fetchSelectedTools True NotFound initial) = [[]] \<and>
   selectedTools (fetchSelectedTools True NotFound initial) \<noteq> defaultTools ''https://host/site'' \<and>
   defaultTools ''https://host/site'' \<notin> set (saves (fetchSelectedTools True NotFound initial))"
  by (simp add: fetchSelectedTools_def setSelectedTools_effect_def saveSelectedTools_def
      setSelectedTools_def defaultTools_def initial_def)

section \<open>Saves\<close>

lemma mutation_saves:
  assumes "mutation st op"
  shows "saves (apply_op st op) = saves st @ [selectedTools (apply_op st op)]"
proof (cases op)
  case (Add tool)
  then show ?thesis
    using assms
    by (simp add: mutation_def apply_op_def after_def addTool_def Let_def setSelectedTools_def
        saveToolsToFile_def)
next
  case (Remove toolId)
  have "None \<notin> set xs \<Longrightarrow> \<exists>ys. filter_not_id xs toolId = Inr ys" for xs
    by (induction xs toolId rule: filter_not_id.induct) auto
  then obtain ys where "filter_not_id (selectedTools st) toolId = Inr ys"
    using assms Remove by (auto simp: mutation_def)
  then show ?thesis
    using Remove
    by (simp add: apply_op_def after_def removeTool_def setSelectedTools_def saveToolsToFile_def)
next
  case (Move f t)
  then show ?thesis
    using assms
    by (simp add: mutation_def apply_op_def after_def moveItem_def Let_def setSelectedTools_def
        saveToolsToFile_def split: prod.splits)
qed

text \<open>
  Claim C6 (saves under rapid mutations), as the code has it: there is no coalescing.
  Every mutation calls \<open>saveToolsToFile\<close> at once with the selection it has just set,
  whatever saves are still in flight; so three mutations in succession add three save
  calls to those already issued (four in total with one in flight), and the payload of
  the last save call is the final selection.
\<close>

theorem one_save_per_mutation:
  assumes "mutation st a" and "mutation (run st [a]) b" and "mutation (run st [a, b]) c"
  shows "length (saves (run st [a, b, c])) = length (saves st) + 3 \<and>
         last (saves (run st [a, b, c])) = selectedTools (run st [a, b, c])"
proof -
  have 1: "saves (run st [a]) = saves st @ [selectedTools (run st [a])]"
    using mutation_saves [OF assms(1)] by (simp add: run_def)
  have 2: "saves (run st [a, b]) = saves (run st [a]) @ [selectedTools (run st [a, b])]"
    using mutation_saves [OF assms(2)] by (simp add: run_def)
  have 3: "saves (run st [a, b, c]) = saves (run st [a, b]) @ [selectedTools (run st [a, b, c])]"
    using mutation_saves [OF assms(3)] by (simp add: run_def)
  show ?thesis
    by (simp add: 1 2 3)
qed

lemma three_mutations:
  "mutation state_saving (Remove ''A'') \<and>
   mutation (run state_saving [Remove ''A'']) (Add tool_D) \<and>
   mutation (run state_saving [Remove ''A'', Add tool_D]) (Move 0 1)"
  by (simp add: state_saving_def run_def apply_op_def after_def mutation_def handler_defs
      example_defs)

theorem one_save_per_mutation_witness:
  "mutation state_saving (Remove ''A'') \<and>
   mutation (run state_saving [Remove ''A'']) (Add tool_D) \<and>
   mutation (run state_saving [Remove ''A'', Add tool_D]) (Move 0 1) \<and>
   length (saves (run state_saving [Remove ''A'', Add tool_D, Move 0 1]))
     = length (saves state_saving) + 3 \<and>
   last (saves (run state_saving [Remove ''A'', Add tool_D, Move 0 1]))
     = selectedTools (run state_saving [Remove ''A'', Add tool_D, Move 0 1])"
  using three_mutations
    one_save_per_mutation [of state_saving "Remove ''A''" "Add tool_D" "Move 0 1"]
  by blast

theorem coalescing_counterexample:
  "length (saves state_saving) = 1 \<and>
   length (saves (run state_saving [Remove ''A'', Add tool_D, Move 0 1])) = 4 \<and>
   length (saves (run state_saving [Remove ''A'', Add tool_D, Move 0 1])) \<noteq> 2 \<and>
   last (saves (run state_saving [Remove ''A'', Add tool_D, Move 0 1]))
     = [Some tool_C, Some tool_B, Some tool_D]"
  by (simp add: state_saving_def run_def apply_op_def after_def handler_defs example_defs)

end
